theory Spec2Isabelle
  imports Main
begin

section \<open>JavaScript values\<close>

text \<open>
  The payloads of \<^verbatim>\<open>src/index.ts\<close> are typed \<^verbatim>\<open>any\<close>. They are modelled by the
  values that cross the transport: \<^verbatim>\<open>undefined\<close>, \<^verbatim>\<open>null\<close>, booleans, numbers (integer
  valued ones only), strings, arrays and objects (key/value lists, in insertion order).
\<close>

datatype jsval =
    JUndefined
  | JNull
  | JBool bool
  | JNum int
  | JStr string
  | JArr "jsval list"
  | JObj "(string \<times> jsval) list"

text \<open>The test \<^verbatim>\<open>if (v)\<close>: the falsy values are \<^verbatim>\<open>undefined\<close>, \<^verbatim>\<open>null\<close>, \<^verbatim>\<open>false\<close>,
  \<^verbatim>\<open>0\<close> and the empty string; every array and object is truthy.\<close>

fun truthy :: "jsval \<Rightarrow> bool" where
  "truthy JUndefined = False"
| "truthy JNull = False"
| "truthy (JBool b) = b"
| "truthy (JNum n) = (n \<noteq> 0)"
| "truthy (JStr s) = (s \<noteq> [])"
| "truthy (JArr xs) = True"
| "truthy (JObj kvs) = True"

text \<open>Reading an optional property: an absent key reads as \<^verbatim>\<open>undefined\<close>.\<close>

definition read_opt :: "jsval option \<Rightarrow> jsval" where
  "read_opt f = (case f of None \<Rightarrow> JUndefined | Some v \<Rightarrow> v)"

text \<open>\<^verbatim>\<open>xs[0]\<close>: JavaScript yields \<^verbatim>\<open>undefined\<close> on an empty array.\<close>

definition index0 :: "jsval list \<Rightarrow> jsval" where
  "index0 xs = (case xs of [] \<Rightarrow> JUndefined | x # rest \<Rightarrow> x)"

section \<open>Envelopes\<close>

definition RPCEvent :: string where
  "RPCEvent = ''rpc''"

record RPCRequest =
  id_request :: string
  method_request :: string
  params :: "jsval list"

text \<open>\<^verbatim>\<open>result?\<close> and \<^verbatim>\<open>error?\<close> are optional keys: \<open>None\<close> is a key that the object does
  not have.\<close>

record RPCResponse =
  id_response :: jsval
  result :: "jsval option"
  error :: "jsval option"

record RPCError =
  code :: int
  message :: jsval
  data :: "jsval option"

text \<open>An \<^verbatim>\<open>RPCError\<close> as the object that travels in \<^verbatim>\<open>response.error\<close>.\<close>

definition RPCError_obj :: "RPCError \<Rightarrow> jsval" where
  "RPCError_obj e =
     JObj ([(''code'', JNum (code e)), (''message'', message e)] @
           (case data e of None \<Rightarrow> [] | Some d \<Rightarrow> [(''data'', d)]))"

section \<open>Promises\<close>

text \<open>A promise is pending or settled; a settled promise never changes again.\<close>

datatype promise = Pending | Fulfilled jsval | Rejected jsval

section \<open>The dispatch router: \<^verbatim>\<open>LiveClient.onRequest\<close>\<close>

text \<open>
  What a listener does that can be observed from outside: it invokes the handler with an
  argument, and it invokes the acknowledgement callback with a response. The trace of a
  listener lists these in the order they happen.
\<close>

datatype effect = HandlerCall jsval | Callback RPCResponse

text \<open>The acknowledgement callback has type \<^verbatim>\<open>(response: RPCResponse) => void\<close>: calling
  it is one effect, and it returns \<^verbatim>\<open>undefined\<close>.\<close>

definition callback :: "RPCResponse \<Rightarrow> effect list \<times> jsval" where
  "callback response = ([Callback response], JUndefined)"

text \<open>
  \<^verbatim>\<open>p.catch(f)\<close>: when \<open>p\<close> is rejected with \<open>e\<close>, \<open>f e\<close> runs and the new promise is
  fulfilled with what \<open>f\<close> returns; a fulfilled \<open>p\<close> passes through and \<open>f\<close> does not
  run. \<^verbatim>\<open>p.then(g)\<close>: when \<open>p\<close> is fulfilled with \<open>v\<close>, \<open>g v\<close> runs; a rejected \<open>p\<close>
  passes through. Nothing runs while \<open>p\<close> stays pending. Each returns the effects of the
  reaction with the new promise.
\<close>

definition promise_catch ::
  "promise \<Rightarrow> (jsval \<Rightarrow> effect list \<times> jsval) \<Rightarrow> effect list \<times> promise" where
  "promise_catch p f =
     (case p of
        Pending \<Rightarrow> ([], Pending)
      | Fulfilled v \<Rightarrow> ([], Fulfilled v)
      | Rejected e \<Rightarrow> (case f e of (tr, r) \<Rightarrow> (tr, Fulfilled r)))"

definition promise_then ::
  "promise \<Rightarrow> (jsval \<Rightarrow> effect list \<times> jsval) \<Rightarrow> effect list \<times> promise" where
  "promise_then p g =
     (case p of
        Pending \<Rightarrow> ([], Pending)
      | Fulfilled v \<Rightarrow> (case g v of (tr, r) \<Rightarrow> (tr, Fulfilled r))
      | Rejected e \<Rightarrow> ([], Rejected e))"

text \<open>
  The listener that \<^verbatim>\<open>onRequest(method, handler)\<close> subscribes on the \<^verbatim>\<open>rpc\<close> event, run on
  one inbound request. The handler is given by the fate of the promise it returns.
  \<^verbatim>\<open>
  function (request, callback) {
      if (request.method === method) {
          handler(request.params[0])
              .catch((err) => callback({ id: request.id, error: { code: 500, message: err } }))
              .then((result) => callback({ id: request.id, result: result }));
      }
  }
  \<close>
\<close>

definition onRequest :: "string \<Rightarrow> (jsval \<Rightarrow> promise) \<Rightarrow> RPCRequest \<Rightarrow> effect list" where
  "onRequest method' handler request =
     (if method_request request = method' then
        (case promise_catch (handler (index0 (params request)))
                (\<lambda>err. callback \<lparr>id_response = JStr (id_request request), result = None,
                   error = Some (RPCError_obj \<lparr>code = 500, message = err, data = None\<rparr>)\<rparr>) of
           (tr1, p1) \<Rightarrow>
             (case promise_then p1
                     (\<lambda>result'. callback \<lparr>id_response = JStr (id_request request),
                        result = Some result', error = None\<rparr>) of
                (tr2, p2) \<Rightarrow> HandlerCall (index0 (params request)) # tr1 @ tr2))
      else [])"

text \<open>
  Every listener subscribed on the \<^verbatim>\<open>rpc\<close> event receives every inbound request: the
  trace of a list of registrations is the traces of its listeners, in subscription order.
  (Each listener's effects are in the order they happen; how the reactions of two
  listeners interleave is not represented.)
\<close>

definition dispatch :: "(string \<times> (jsval \<Rightarrow> promise)) list \<Rightarrow> RPCRequest \<Rightarrow> effect list" where
  "dispatch regs request = concat (map (\<lambda>(m, h). onRequest m h request) regs)"

section \<open>The correlation engine: \<^verbatim>\<open>LiveClient\<close>\<close>

text \<open>
  The counter \<^verbatim>\<open>private id = 0\<close> is a JavaScript number, a double. It starts at 0 and
  only \<^verbatim>\<open>this.id++\<close> changes it, so it holds an integer between 0 and \<open>2 ^ 53\<close>. Up to
  \<open>2 ^ 53\<close> the addition is exact. \<open>2 ^ 53 + 1\<close> is not a double: the sum rounds to the
  nearest even mantissa, which is \<open>2 ^ 53\<close> again, and the counter stays there.
\<close>

definition js_incr :: "nat \<Rightarrow> nat" where
  "js_incr n = (if n < 2 ^ 53 then n + 1 else n)"

text \<open>\<^verbatim>\<open>Number.prototype.toString\<close> on a non-negative integer below \<open>10 ^ 21\<close>: its
  decimal digits, most significant first, without leading zeros.\<close>

definition digit :: "nat \<Rightarrow> char" where
  "digit d = char_of (48 + d)"

fun toString :: "nat \<Rightarrow> string" where
  "toString n = (if n < 10 then [digit n] else toString (n div 10) @ [digit (n mod 10)])"

declare toString.simps [simp del]

text \<open>
  What \<^verbatim>\<open>socket.emit\<close> was called with: the event name, the payload and, when an
  acknowledgement function was passed, the promise that this function settles.
\<close>

datatype payload = Envelope RPCRequest | Plain jsval

record emission =
  event :: string
  arg :: payload
  ack :: "nat option"

text \<open>
  The client: its counter, what it has emitted on its socket so far, and the promises it
  has handed out (a promise is named by its position in the list).
\<close>

record LiveClient =
  id_counter :: nat
  socket :: "emission list"
  promises :: "promise list"

definition new_LiveClient :: LiveClient where
  "new_LiveClient = \<lparr>id_counter = 0, socket = [], promises = []\<rparr>"

text \<open>\<^verbatim>\<open>resolve(v)\<close> and \<^verbatim>\<open>reject(e)\<close> of promise \<open>h\<close>: they settle a pending promise and
  do nothing to a settled one. (The values are data that came over the transport, so
  \<open>v\<close> is never a thenable that \<^verbatim>\<open>resolve\<close> would follow.)\<close>

definition resolve :: "nat \<Rightarrow> jsval \<Rightarrow> LiveClient \<Rightarrow> LiveClient" where
  "resolve h v c =
     (if h < length (promises c) \<and> promises c ! h = Pending
      then c\<lparr>promises := (promises c)[h := Fulfilled v]\<rparr> else c)"

definition reject :: "nat \<Rightarrow> jsval \<Rightarrow> LiveClient \<Rightarrow> LiveClient" where
  "reject h e c =
     (if h < length (promises c) \<and> promises c ! h = Pending
      then c\<lparr>promises := (promises c)[h := Rejected e]\<rparr> else c)"

text \<open>
  \<^verbatim>\<open>
  notify(method, param) { this.socket.emit(method, param); }
  \<close>
\<close>

definition notify :: "string \<Rightarrow> jsval \<Rightarrow> LiveClient \<Rightarrow> LiveClient" where
  "notify method' param c =
     c\<lparr>socket := socket c @ [\<lparr>event = method', arg = Plain param, ack = None\<rparr>]\<rparr>"

text \<open>
  \<^verbatim>\<open>
  request(address, method, param) {
      this.id++;
      return new Promise((resolve, reject) => {
          this.socket.emit(RPCEvent,
              { id: this.id.toString(), method: address + "." + method, params: [param] },
              function (response) { ... });
      })
  }
  \<close>
  The executor runs at once, so the envelope carries the counter as just incremented.
  The result is the new promise and the client after the call.
\<close>

definition request :: "string \<Rightarrow> string \<Rightarrow> jsval \<Rightarrow> LiveClient \<Rightarrow> nat \<times> LiveClient" where
  "request address method' param c =
     (let c1 = c\<lparr>id_counter := js_incr (id_counter c)\<rparr>;
          h = length (promises c1)
      in (h, c1\<lparr>promises := promises c1 @ [Pending],
                socket := socket c1 @
                  [\<lparr>event = RPCEvent,
                    arg = Envelope \<lparr>id_request = toString (id_counter c1),
                                   method_request = address @ ''.'' @ method',
                                   params = [param]\<rparr>,
                    ack = Some h\<rparr>]\<rparr>))"

text \<open>
  The acknowledgement function that \<^verbatim>\<open>request\<close> passes along with the envelope of
  promise \<open>h\<close>, called by the transport with a response:
  \<^verbatim>\<open>
  function (response) {
      if (response.error) { return reject(response.error); }
      resolve(response.result);
  }
  \<close>
\<close>

definition acknowledge :: "nat \<Rightarrow> RPCResponse \<Rightarrow> LiveClient \<Rightarrow> LiveClient" where
  "acknowledge h response c =
     (if truthy (read_opt (error response)) then reject h (read_opt (error response)) c
      else resolve h (read_opt (result response)) c)"

text \<open>
  \<^verbatim>\<open>
  authenticate(token) { return this.request("", "Live.Authenticate", token); }
  \<close>
\<close>

definition authenticate :: "string \<Rightarrow> LiveClient \<Rightarrow> nat \<times> LiveClient" where
  "authenticate token c = request [] ''Live.Authenticate'' (JStr token) c"

text \<open>\<^verbatim>\<open>PipelineLiveClient.getRegisteredAgents\<close>: \<^verbatim>\<open>this.request("Pipeline",
  "GetRegisteredAgents", {})\<close>.\<close>

definition getRegisteredAgents :: "LiveClient \<Rightarrow> nat \<times> LiveClient" where
  "getRegisteredAgents c = request ''Pipeline'' ''GetRegisteredAgents'' (JObj []) c"

section \<open>Observations and runs\<close>

text \<open>The responses passed to the acknowledgement callback, and the arguments passed to
  the handler, in a trace.\<close>

fun callbacks :: "effect list \<Rightarrow> RPCResponse list" where
  "callbacks [] = []"
| "callbacks (HandlerCall a # tr) = callbacks tr"
| "callbacks (Callback r # tr) = r # callbacks tr"

fun handler_calls :: "effect list \<Rightarrow> jsval list" where
  "handler_calls [] = []"
| "handler_calls (HandlerCall a # tr) = a # handler_calls tr"
| "handler_calls (Callback r # tr) = handler_calls tr"

text \<open>A sequence of invocations of the two public operations that issue an id.\<close>

datatype invocation = Call string string jsval | Authenticate string

fun invoke :: "invocation \<Rightarrow> LiveClient \<Rightarrow> nat \<times> LiveClient" where
  "invoke (Call address method' param) c = request address method' param c"
| "invoke (Authenticate token) c = authenticate token c"

fun invoke_all :: "invocation list \<Rightarrow> LiveClient \<Rightarrow> LiveClient" where
  "invoke_all [] c = c"
| "invoke_all (i # is) c = invoke_all is (snd (invoke i c))"

text \<open>The ids of the envelopes emitted so far, oldest first.\<close>

fun envelope_ids :: "emission list \<Rightarrow> string list" where
  "envelope_ids [] = []"
| "envelope_ids (e # es) =
     (case arg e of Envelope rq \<Rightarrow> id_request rq # envelope_ids es
                  | Plain v \<Rightarrow> envelope_ids es)"

text \<open>The number that a string of decimal digits denotes.\<close>

definition digits_value :: "string \<Rightarrow> nat" where
  "digits_value s = foldl (\<lambda>acc ch. 10 * acc + (of_char ch - 48)) 0 s"

text \<open>
  The transport calls acknowledgement functions, one after the other: \<open>(h, r)\<close> is a call
  of the acknowledgement function of promise \<open>h\<close> with the response \<open>r\<close>.
\<close>

fun deliver :: "(nat \<times> RPCResponse) list \<Rightarrow> LiveClient \<Rightarrow> LiveClient" where
  "deliver [] c = c"
| "deliver ((h, r) # ds) c = deliver ds (acknowledge h r c)"

text \<open>How a response settles a pending promise: rejected with a truthy \<^verbatim>\<open>error\<close>,
  fulfilled with \<^verbatim>\<open>result\<close> otherwise.\<close>

definition outcome :: "RPCResponse \<Rightarrow> promise" where
  "outcome r =
     (if truthy (read_opt (error r)) then Rejected (read_opt (error r))
      else Fulfilled (read_opt (result r)))"

text \<open>In the words of the specification: the response, among those that arrived, whose
  id matches a request id.\<close>

definition response_matching :: "string \<Rightarrow> RPCResponse list \<Rightarrow> RPCResponse option" where
  "response_matching rid rs = find (\<lambda>r. id_response r = JStr rid) rs"

text \<open>
  In the words of the specification: every call has received the result or error of the
  response whose id matches its own request id, and is pending while no such response has
  arrived. \<open>rs\<close> are the responses that arrived.
\<close>

definition settled_by_matching_id :: "LiveClient \<Rightarrow> RPCResponse list \<Rightarrow> bool" where
  "settled_by_matching_id c rs =
     list_all (\<lambda>e. case arg e of
                     Plain v \<Rightarrow> True
                   | Envelope rq \<Rightarrow>
                       (case ack e of
                          None \<Rightarrow> True
                        | Some h \<Rightarrow>
                            promises c ! h =
                              (case response_matching (id_request rq) rs of
                                 None \<Rightarrow> Pending
                               | Some r \<Rightarrow> outcome r)))
       (socket c)"

section \<open>Decimal rendering\<close>

lemma digit_value: "d < 10 \<Longrightarrow> of_char (digit d) - 48 = (d::nat)"
  by (simp add: digit_def)

lemma digits_value_snoc:
  "digits_value (s @ [ch]) = 10 * digits_value s + (of_char ch - 48)"
  by (simp add: digits_value_def)

lemma digits_value_toString: "digits_value (toString n) = n"
proof (induction n rule: toString.induct)
  case (1 n)
  show ?case
  proof (cases "n < 10")
    case True
    then show ?thesis
      by (simp add: toString.simps [of n] digits_value_def digit_value)
  next
    case False
    with 1 have "digits_value (toString (n div 10)) = n div 10" by simp
    with False show ?thesis
      by (simp add: toString.simps [of n] digits_value_snoc digit_value)
  qed
qed

lemma toString_inject: "toString m = toString n \<Longrightarrow> m = n"
  by (metis digits_value_toString)

lemma inj_toString: "inj toString"
  by (rule injI) (rule toString_inject)

lemma toString_1: "toString (Suc 0) = ''1''"
  by code_simp

lemma toString_2: "toString (Suc (Suc 0)) = ''2''"
  by code_simp

lemma toString_3: "toString (Suc (Suc (Suc 0))) = ''3''"
  by code_simp

section \<open>Basic facts about the operations\<close>

lemma envelope_ids_append: "envelope_ids (es @ fs) = envelope_ids es @ envelope_ids fs"
  by (induction es) (simp_all split: payload.split)

lemma request_id_counter: "id_counter (snd (request a m p c)) = js_incr (id_counter c)"
  by (simp add: request_def Let_def)

lemma request_envelope_ids:
  "envelope_ids (socket (snd (request a m p c))) =
     envelope_ids (socket c) @ [toString (js_incr (id_counter c))]"
  by (simp add: request_def Let_def envelope_ids_append)

lemma request_promises: "promises (snd (request a m p c)) = promises c @ [Pending]"
  by (simp add: request_def Let_def)

lemma invoke_id_counter: "id_counter (snd (invoke i c)) = js_incr (id_counter c)"
  by (cases i) (simp_all add: authenticate_def request_id_counter)

lemma invoke_envelope_ids:
  "envelope_ids (socket (snd (invoke i c))) =
     envelope_ids (socket c) @ [toString (js_incr (id_counter c))]"
  by (cases i) (simp_all add: authenticate_def request_envelope_ids)

lemma invoke_promises: "promises (snd (invoke i c)) = promises c @ [Pending]"
  by (cases i) (simp_all add: authenticate_def request_promises)

lemma invoke_all_promises:
  "promises (invoke_all is c) = promises c @ replicate (length is) Pending"
  by (induction "is" arbitrary: c) (simp_all add: invoke_promises replicate_app_Cons_same)

lemma js_incr_min: "n \<le> 2 ^ 53 \<Longrightarrow> js_incr n = min (n + 1) (2 ^ 53)"
  by (simp add: js_incr_def)

lemma invoke_all_append: "invoke_all (xs @ ys) c = invoke_all ys (invoke_all xs c)"
  by (induction xs arbitrary: c) simp_all

lemma invoke_all_id_counter:
  "id_counter c \<le> 2 ^ 53 \<Longrightarrow>
   id_counter (invoke_all is c) = min (id_counter c + length is) (2 ^ 53)"
proof (induction "is" arbitrary: c)
  case Nil
  then show ?case by simp
next
  case (Cons i "is")
  define M :: nat where "M = 2 ^ 53"
  let ?c = "snd (invoke i c)"
  have n: "id_counter ?c = min (id_counter c + 1) M"
    using Cons.prems by (simp add: invoke_id_counter js_incr_min M_def)
  then have "id_counter ?c \<le> 2 ^ 53" by (simp add: M_def)
  from Cons.IH [OF this]
  have "id_counter (invoke_all is ?c) = min (id_counter ?c + length is) M"
    by (simp add: M_def)
  also have "\<dots> = min (id_counter c + length (i # is)) M"
    unfolding n by (simp add: min_def)
  finally show ?case by (simp add: M_def)
qed

lemma invoke_all_envelope_ids:
  "id_counter c \<le> 2 ^ 53 \<Longrightarrow>
   envelope_ids (socket (invoke_all is c)) =
     envelope_ids (socket c) @
     map (\<lambda>k. toString (min (id_counter c + k) (2 ^ 53))) [1..<Suc (length is)]"
proof (induction "is" rule: rev_induct)
  case Nil
  show ?case by simp
next
  case (snoc i "is")
  define M :: nat where "M = 2 ^ 53"
  let ?c = "invoke_all is c"
  have n: "id_counter ?c = min (id_counter c + length is) M"
    using snoc.prems by (simp add: invoke_all_id_counter M_def)
  then have "id_counter ?c \<le> 2 ^ 53" by (simp add: M_def)
  then have "js_incr (id_counter ?c) = min (id_counter ?c + 1) M"
    by (simp add: js_incr_min M_def)
  also have "\<dots> = min (id_counter c + Suc (length is)) M"
    unfolding n by (simp add: min_def)
  finally have last: "js_incr (id_counter ?c) = min (id_counter c + Suc (length is)) M" .
  have "envelope_ids (socket (invoke_all (is @ [i]) c)) =
      envelope_ids (socket ?c) @ [toString (js_incr (id_counter ?c))]"
    by (simp add: invoke_all_append invoke_envelope_ids)
  with snoc last show ?case by (simp add: M_def)
qed

lemma invoke_all_new_ids:
  "envelope_ids (socket (invoke_all is new_LiveClient)) =
     map (\<lambda>k. toString (min k (2 ^ 53))) [1..<Suc (length is)]"
  using invoke_all_envelope_ids [of new_LiveClient "is"] by (simp add: new_LiveClient_def)

lemma resolve_pending:
  "h < length (promises c) \<Longrightarrow> promises c ! h = Pending \<Longrightarrow>
   promises (resolve h v c) = (promises c)[h := Fulfilled v]"
  by (simp add: resolve_def)

lemma reject_pending:
  "h < length (promises c) \<Longrightarrow> promises c ! h = Pending \<Longrightarrow>
   promises (reject h e c) = (promises c)[h := Rejected e]"
  by (simp add: reject_def)

lemma acknowledge_pending:
  assumes "h < length (promises c)" and "promises c ! h = Pending"
  shows "promises (acknowledge h r c) = (promises c)[h := outcome r]"
  using assms by (simp add: acknowledge_def outcome_def resolve_pending reject_pending)

lemma acknowledge_settled:
  "promises c ! h \<noteq> Pending \<Longrightarrow> acknowledge h r c = c"
  by (simp add: acknowledge_def resolve_def reject_def)

lemma acknowledge_length:
  "length (promises (acknowledge h r c)) = length (promises c)"
  by (simp add: acknowledge_def resolve_def reject_def)

lemma acknowledge_other:
  "h' \<noteq> h \<Longrightarrow> promises (acknowledge h' r c) ! h = promises c ! h"
  by (simp add: acknowledge_def resolve_def reject_def)

lemma outcome_settled: "outcome r \<noteq> Pending"
  by (simp add: outcome_def)

text \<open>A settled promise is never settled again.\<close>

lemma deliver_settled:
  "promises c ! h \<noteq> Pending \<Longrightarrow> promises (deliver ds c) ! h = promises c ! h"
proof (induction ds arbitrary: c)
  case Nil
  show ?case by simp
next
  case (Cons d ds)
  obtain h' r' where d: "d = (h', r')" by (cases d)
  have "promises (acknowledge h' r' c) ! h = promises c ! h"
    using Cons.prems by (cases "h' = h") (simp_all add: acknowledge_settled acknowledge_other)
  with Cons d show ?case by simp
qed

text \<open>A pending promise is settled by the first response that its own acknowledgement
  function is called with, and by nothing else.\<close>

lemma deliver_first:
  "h < length (promises c) \<Longrightarrow> promises c ! h = Pending \<Longrightarrow>
   promises (deliver ds c) ! h = (case map_of ds h of None \<Rightarrow> Pending | Some r \<Rightarrow> outcome r)"
proof (induction ds arbitrary: c)
  case Nil
  then show ?case by simp
next
  case (Cons d ds)
  obtain h' r' where d: "d = (h', r')" by (cases d)
  show ?case
  proof (cases "h' = h")
    case True
    have "promises (acknowledge h r' c) ! h = outcome r'"
      using Cons.prems by (simp add: acknowledge_pending)
    then have "promises (deliver ds (acknowledge h r' c)) ! h = outcome r'"
      using deliver_settled [of "acknowledge h r' c" h ds] by (simp add: outcome_settled)
    with True d show ?thesis by simp
  next
    case False
    then have "promises (acknowledge h' r' c) ! h = Pending"
      using Cons.prems by (simp add: acknowledge_other)
    moreover have "h < length (promises (acknowledge h' r' c))"
      using Cons.prems by (simp add: acknowledge_length)
    ultimately show ?thesis using Cons.IH False d by simp
  qed
qed

lemma truthy_RPCError_obj: "truthy (RPCError_obj e)"
  by (simp add: RPCError_obj_def)

lemma onRequest_other_method: "method_request rq \<noteq> method' \<Longrightarrow> onRequest method' handler rq = []"
  by (simp add: onRequest_def)

lemma handler_calls_onRequest:
  "handler_calls (onRequest method' handler rq) =
     (if method_request rq = method' then [index0 (params rq)] else [])"
  by (cases "handler (index0 (params rq))")
     (simp_all add: onRequest_def promise_catch_def promise_then_def callback_def)

lemma dispatch_Cons:
  "dispatch ((m, h) # regs) rq = onRequest m h rq @ dispatch regs rq"
  by (simp add: dispatch_def)

lemma dispatch_matching_only:
  "dispatch regs rq = dispatch (filter (\<lambda>(m, h). m = method_request rq) regs) rq"
proof (induction regs)
  case Nil
  show ?case by simp
next
  case (Cons reg regs)
  obtain m h where reg: "reg = (m, h)" by (cases reg)
  show ?case
  proof (cases "m = method_request rq")
    case True
    with Cons reg show ?thesis by (simp add: dispatch_Cons)
  next
    case False
    then have "onRequest m h rq = []" by (simp add: onRequest_other_method)
    with False Cons reg show ?thesis by (simp add: dispatch_Cons)
  qed
qed

text \<open>A rejected handler promise makes the listener call the acknowledgement callback
  twice, whatever the envelope and the rejection value: the \<^verbatim>\<open>catch\<close> reaction answers
  with the error, and the \<^verbatim>\<open>then\<close> reaction chained behind it answers again, with the
  \<^verbatim>\<open>undefined\<close> that the callback returned.\<close>

lemma onRequest_rejected_callbacks:
  assumes "method_request rq = method'"
    and "handler (index0 (params rq)) = Rejected e"
  shows "callbacks (onRequest method' handler rq) =
     [\<lparr>id_response = JStr (id_request rq), result = None,
        error = Some (RPCError_obj \<lparr>code = 500, message = e, data = None\<rparr>)\<rparr>,
      \<lparr>id_response = JStr (id_request rq), result = Some JUndefined, error = None\<rparr>]"
  using assms
  by (simp add: onRequest_def promise_catch_def promise_then_def callback_def)

section \<open>Responses that carry the id of their request\<close>

lemma deliver_socket: "socket (deliver ds c) = socket c"
  by (induction ds arbitrary: c) (auto simp: acknowledge_def resolve_def reject_def)

lemma invoke_socket:
  "\<exists>rq. socket (snd (invoke i c)) =
     socket c @ [\<lparr>event = RPCEvent, arg = Envelope rq, ack = Some (length (promises c))\<rparr>]
     \<and> id_request rq = toString (js_incr (id_counter c))"
  by (cases i) (simp_all add: authenticate_def request_def Let_def)

text \<open>On a new client the \<open>k\<close>-th call (counting from 0) is issued the id \<open>k + 1\<close> and
  its acknowledgement function settles promise \<open>k\<close>.\<close>

lemma invoke_all_emissions:
  "length is \<le> 2 ^ 53 \<Longrightarrow> e \<in> set (socket (invoke_all is new_LiveClient)) \<Longrightarrow>
   \<exists>rq k. arg e = Envelope rq \<and> ack e = Some k \<and> k < length is \<and>
          id_request rq = toString (Suc k)"
proof (induction "is" rule: rev_induct)
  case Nil
  then show ?case by (simp add: new_LiveClient_def)
next
  case (snoc i "is")
  let ?c = "invoke_all is new_LiveClient"
  have n: "id_counter ?c = length is"
    using snoc.prems(1) invoke_all_id_counter [of new_LiveClient "is"]
    by (simp add: new_LiveClient_def)
  have p: "length (promises ?c) = length is"
    by (simp add: invoke_all_promises new_LiveClient_def)
  have incr: "js_incr (length is) = Suc (length is)"
    using snoc.prems(1) by (simp add: js_incr_def)
  obtain rq where rq: "socket (invoke_all (is @ [i]) new_LiveClient) =
      socket ?c @ [\<lparr>event = RPCEvent, arg = Envelope rq, ack = Some (length is)\<rparr>]"
    and id: "id_request rq = toString (Suc (length is))"
    using invoke_socket [of i ?c] by (auto simp: invoke_all_append n p incr)
  show ?case
  proof (cases "e \<in> set (socket ?c)")
    case True
    with snoc obtain rq' k where "arg e = Envelope rq'" "ack e = Some k" "k < length is"
      "id_request rq' = toString (Suc k)" by auto
    then show ?thesis by auto
  next
    case False
    with snoc.prems(2) rq have "e = \<lparr>event = RPCEvent, arg = Envelope rq, ack = Some (length is)\<rparr>"
      by simp
    with id show ?thesis by simp
  qed
qed

text \<open>When every response carries the id of the call whose acknowledgement function it
  is passed to, looking a response up by id finds the first response of that call.\<close>

lemma response_matching_echo:
  "list_all (\<lambda>(h, r). id_response r = JStr (toString (Suc h))) ds \<Longrightarrow>
   response_matching (toString (Suc k)) (map snd ds) = map_of ds k"
proof (induction ds)
  case Nil
  show ?case by (simp add: response_matching_def)
next
  case (Cons d ds)
  obtain h r where d: "d = (h, r)" by (cases d)
  from Cons.prems d have r: "id_response r = JStr (toString (Suc h))" by simp
  have "toString (Suc h) = toString (Suc k) \<longleftrightarrow> h = k"
    using toString_inject by auto
  with Cons d r show ?case by (auto simp: response_matching_def)
qed

lemma echoed_ids_settle_by_matching_id:
  assumes "length is \<le> 2 ^ 53"
    and "list_all (\<lambda>(h, r). id_response r = JStr (toString (Suc h))) ds"
  shows "settled_by_matching_id (deliver ds (invoke_all is new_LiveClient)) (map snd ds)"
proof -
  let ?c = "invoke_all is new_LiveClient"
  have "promises (deliver ds ?c) ! k =
      (case response_matching (toString (Suc k)) (map snd ds) of
         None \<Rightarrow> Pending | Some r \<Rightarrow> outcome r)"
    if "k < length is" for k
  proof -
    have "k < length (promises ?c)" "promises ?c ! k = Pending"
      using that by (simp_all add: invoke_all_promises new_LiveClient_def)
    then have "promises (deliver ds ?c) ! k =
        (case map_of ds k of None \<Rightarrow> Pending | Some r \<Rightarrow> outcome r)"
      by (rule deliver_first)
    with that assms(2) show ?thesis by (simp add: response_matching_echo)
  qed
  then have "case arg e of
        Plain v \<Rightarrow> True
      | Envelope rq \<Rightarrow>
          (case ack e of
             None \<Rightarrow> True
           | Some h \<Rightarrow>
               promises (deliver ds ?c) ! h =
                 (case response_matching (id_request rq) (map snd ds) of
                    None \<Rightarrow> Pending
                  | Some r \<Rightarrow> outcome r))"
    if "e \<in> set (socket ?c)" for e
    using invoke_all_emissions [OF assms(1) that] by auto
  then show ?thesis
    by (simp add: settled_by_matching_id_def list_all_iff deliver_socket)
qed

section \<open>The claims\<close>

subsection \<open>Dispatch router\<close>

text \<open>
  C1. Claimed: when the handler's promise is rejected, the acknowledgement callback is
  invoked exactly once, with the error response. The code chains \<^verbatim>\<open>.catch(...)\<close> before
  \<^verbatim>\<open>.then(...)\<close>: the promise that \<^verbatim>\<open>catch\<close> returns is fulfilled with what the callback
  returned, so the \<^verbatim>\<open>then\<close> reaction runs as well. For \<^verbatim>\<open>onRequest("Foo.Bar", handler)\<close>
  with a handler that rejects with \<^verbatim>\<open>"boom"\<close> and the inbound envelope
  \<^verbatim>\<open>{id: "7", method: "Foo.Bar", params: [{}]}\<close>, the callback is invoked twice: with the
  error response, and then with \<^verbatim>\<open>{id: "7", result: undefined}\<close>.
\<close>

theorem onRequest_failure_acknowledges_twice:
  "callbacks (onRequest ''Foo.Bar'' (\<lambda>x. Rejected (JStr ''boom''))
       \<lparr>id_request = ''7'', method_request = ''Foo.Bar'', params = [JObj []]\<rparr>) =
     [\<lparr>id_response = JStr ''7'', result = None,
        error = Some (JObj [(''code'', JNum 500), (''message'', JStr ''boom'')])\<rparr>,
      \<lparr>id_response = JStr ''7'', result = Some JUndefined, error = None\<rparr>]"
  by (simp add: onRequest_def promise_catch_def promise_then_def callback_def RPCError_obj_def
      index0_def)

text \<open>
  C6. The listener of \<^verbatim>\<open>onRequest(method, handler)\<close> invokes the handler, with the first
  element of the envelope's params, exactly when the envelope's method equals the
  registered one; on any other envelope it has no effect at all, neither a handler call
  nor an acknowledgement. Registrations for other methods therefore do not interfere: what
  a list of registrations does on an envelope is what the registrations for
  the envelope's method do.
\<close>

theorem onRequest_filters_by_method:
  "handler_calls (onRequest method' handler rq) =
     (if method_request rq = method' then [index0 (params rq)] else [])
   \<and> (method_request rq \<noteq> method' \<longrightarrow> onRequest method' handler rq = [])
   \<and> dispatch regs rq = dispatch (filter (\<lambda>(m, h). m = method_request rq) regs) rq"
  using handler_calls_onRequest [of method' handler rq]
    onRequest_other_method [of rq method' handler]
    dispatch_matching_only [of regs rq]
  by blast

theorem onRequest_filters_by_method_witness:
  "handler_calls (onRequest ''Foo.Bar'' (\<lambda>x. Fulfilled x)
      \<lparr>id_request = ''7'', method_request = ''Foo.Bar'', params = [JNum 1]\<rparr>) = [JNum 1]
   \<and> ''Foo.Baz'' \<noteq> ''Foo.Bar''
   \<and> onRequest ''Foo.Bar'' (\<lambda>x. Fulfilled x)
      \<lparr>id_request = ''8'', method_request = ''Foo.Baz'', params = [JNum 1]\<rparr> = []
   \<and> dispatch [(''Foo.Bar'', \<lambda>x. Fulfilled x), (''Foo.Baz'', \<lambda>x. Rejected x)]
        \<lparr>id_request = ''8'', method_request = ''Foo.Baz'', params = [JNum 1]\<rparr> =
      dispatch [(''Foo.Baz'', \<lambda>x. Rejected x)]
        \<lparr>id_request = ''8'', method_request = ''Foo.Baz'', params = [JNum 1]\<rparr>"
  using onRequest_filters_by_method [of "''Foo.Bar''" "\<lambda>x. Fulfilled x"
      "\<lparr>id_request = ''7'', method_request = ''Foo.Bar'', params = [JNum 1]\<rparr>" "[]"]
    onRequest_filters_by_method [of "''Foo.Bar''" "\<lambda>x. Fulfilled x"
      "\<lparr>id_request = ''8'', method_request = ''Foo.Baz'', params = [JNum 1]\<rparr>"
      "[(''Foo.Bar'', \<lambda>x. Fulfilled x), (''Foo.Baz'', \<lambda>x. Rejected x)]"]
  by (simp add: index0_def)

text \<open>
  C7. When the envelope's method matches and the handler's promise is fulfilled with \<open>V\<close>,
  the acknowledgement callback is invoked exactly once, with the response that has the
  envelope's id, the result \<open>V\<close> and no error key.
\<close>

theorem onRequest_success:
  assumes "method_request rq = method'"
    and "handler (index0 (params rq)) = Fulfilled V"
  shows "callbacks (onRequest method' handler rq) =
     [\<lparr>id_response = JStr (id_request rq), result = Some V, error = None\<rparr>]"
  using assms
  by (simp add: onRequest_def promise_catch_def promise_then_def callback_def)

theorem onRequest_success_witness:
  "callbacks (onRequest ''Foo.Bar'' (\<lambda>x. Fulfilled (JStr ''V''))
       \<lparr>id_request = ''7'', method_request = ''Foo.Bar'', params = [JObj []]\<rparr>) =
     [\<lparr>id_response = JStr ''7'', result = Some (JStr ''V''), error = None\<rparr>]"
  using onRequest_success [of "\<lparr>id_request = ''7'', method_request = ''Foo.Bar'', params = [JObj []]\<rparr>"
      "''Foo.Bar''" "\<lambda>x. Fulfilled (JStr ''V'')" "JStr ''V''"]
  by simp

subsection \<open>Correlation engine\<close>

text \<open>
  C4. \<^verbatim>\<open>request(address, method, param)\<close> (the specification's \<^verbatim>\<open>call\<close>) emits one more
  packet, on the \<^verbatim>\<open>rpc\<close> event, whose envelope has the method \<^verbatim>\<open>address + "." + method\<close>
  and the params \<^verbatim>\<open>[param]\<close>; \<^verbatim>\<open>request("peerA", "Foo.Bar", {x: 1})\<close> emits the method
  \<^verbatim>\<open>"peerA.Foo.Bar"\<close> and the params \<^verbatim>\<open>[{x: 1}]\<close>.
\<close>

theorem call_emits_addressed_envelope:
  "socket (snd (request address method' param c)) =
     socket c @
     [\<lparr>event = RPCEvent,
       arg = Envelope \<lparr>id_request = toString (js_incr (id_counter c)),
                      method_request = address @ ''.'' @ method', params = [param]\<rparr>,
       ack = Some (fst (request address method' param c))\<rparr>]
   \<and> RPCEvent = ''rpc''
   \<and> arg (last (socket (snd (request ''peerA'' ''Foo.Bar'' (JObj [(''x'', JNum 1)]) c)))) =
     Envelope \<lparr>id_request = toString (js_incr (id_counter c)), method_request = ''peerA.Foo.Bar'',
               params = [JObj [(''x'', JNum 1)]]\<rparr>"
  by (simp add: request_def Let_def RPCEvent_def)

text \<open>
  C10. With the empty address the separator stays: \<^verbatim>\<open>request("", method, param)\<close> emits
  the method \<^verbatim>\<open>"." + method\<close>, and \<^verbatim>\<open>authenticate(token)\<close> emits exactly
  \<^verbatim>\<open>".Live.Authenticate"\<close>.
\<close>

theorem request_empty_address:
  "arg (last (socket (snd (request [] method' param c)))) =
     Envelope \<lparr>id_request = toString (js_incr (id_counter c)),
               method_request = ''.'' @ method', params = [param]\<rparr>
   \<and> arg (last (socket (snd (authenticate token c)))) =
     Envelope \<lparr>id_request = toString (js_incr (id_counter c)),
               method_request = ''.Live.Authenticate'', params = [JStr token]\<rparr>"
  by (simp add: request_def authenticate_def Let_def)

text \<open>
  C8. \<^verbatim>\<open>notify(method, param)\<close> emits one packet, on the event named \<open>method\<close>, whose
  payload is \<open>param\<close> itself (no envelope, so no id) and which has no acknowledgement
  function; it creates no promise and leaves the counter as it was, so the next call is
  issued the id it would have been issued without the notification. The operation has no
  failing branch: it is a total function of the client.
\<close>

theorem notify_effect:
  "socket (notify method' param c) =
     socket c @ [\<lparr>event = method', arg = Plain param, ack = None\<rparr>]
   \<and> promises (notify method' param c) = promises c
   \<and> id_counter (notify method' param c) = id_counter c
   \<and> fst (request a m p (notify method' param c)) = fst (request a m p c)
   \<and> envelope_ids (socket (snd (request a m p (notify method' param c)))) =
     envelope_ids (socket (snd (request a m p c)))"
  by (simp add: notify_def request_def Let_def envelope_ids_append)

text \<open>
  C9. \<^verbatim>\<open>authenticate(token)\<close> is \<^verbatim>\<open>request("", "Live.Authenticate", token)\<close>: the same
  promise and the same client state result, hence the same envelope on the same event,
  and whatever the transport then calls the acknowledgement functions with leads to the
  same state.
\<close>

theorem authenticate_is_call:
  "authenticate token c = request [] ''Live.Authenticate'' (JStr token) c
   \<and> socket (snd (authenticate token c)) =
     socket c @
     [\<lparr>event = RPCEvent,
       arg = Envelope \<lparr>id_request = toString (js_incr (id_counter c)),
                      method_request = ''.Live.Authenticate'', params = [JStr token]\<rparr>,
       ack = Some (fst (authenticate token c))\<rparr>]
   \<and> deliver ds (snd (authenticate token c)) =
     deliver ds (snd (request [] ''Live.Authenticate'' (JStr token) c))"
  by (simp add: authenticate_def request_def Let_def)

text \<open>
  C5. For an outstanding call (its promise \<open>h\<close> is pending), when the acknowledged
  response carries an error object, the promise is rejected with that very object, code,
  message and data as they came; when the response has no error, the promise is fulfilled
  with the response's result.
\<close>

theorem acknowledge_error_or_result:
  assumes "h < length (promises c)" and "promises c ! h = Pending"
  shows "(error response = Some (RPCError_obj e) \<longrightarrow>
            promises (acknowledge h response c) ! h = Rejected (RPCError_obj e))
       \<and> (error response = None \<longrightarrow>
            promises (acknowledge h response c) ! h = Fulfilled (read_opt (result response)))"
  using assms
  by (simp add: acknowledge_pending outcome_def truthy_RPCError_obj read_opt_def)

theorem acknowledge_error_or_result_witness:
  "envelope_ids (socket (invoke_all [Authenticate ''t'', Authenticate ''t'', Authenticate ''t'']
       new_LiveClient)) ! 2 = ''3''
   \<and> map ack (socket (invoke_all [Authenticate ''t'', Authenticate ''t'', Authenticate ''t'']
       new_LiveClient)) ! 2 = Some 2
   \<and> promises (acknowledge 2
       \<lparr>id_response = JStr ''3'', result = None,
        error = Some (JObj [(''code'', JNum 401), (''message'', JStr ''bad token'')])\<rparr>
       (invoke_all [Authenticate ''t'', Authenticate ''t'', Authenticate ''t'']
          new_LiveClient)) ! 2 =
     Rejected (JObj [(''code'', JNum 401), (''message'', JStr ''bad token'')])
   \<and> promises (acknowledge 2
       \<lparr>id_response = JStr ''3'', result = Some (JBool True), error = None\<rparr>
       (invoke_all [Authenticate ''t'', Authenticate ''t'', Authenticate ''t'']
          new_LiveClient)) ! 2 =
     Fulfilled (JBool True)"
proof -
  let ?c = "invoke_all [Authenticate ''t'', Authenticate ''t'', Authenticate ''t'']
       new_LiveClient"
  have len: "2 < length (promises ?c)"
    unfolding invoke_all_promises by simp
  have pend: "promises ?c ! 2 = Pending"
    unfolding invoke_all_promises by (simp add: new_LiveClient_def)
  have obj: "RPCError_obj \<lparr>code = 401, message = JStr ''bad token'', data = None\<rparr> =
      JObj [(''code'', JNum 401), (''message'', JStr ''bad token'')]"
    by (simp add: RPCError_obj_def)
  have ids: "envelope_ids (socket ?c) ! 2 = ''3''"
    by (simp add: authenticate_def request_def Let_def new_LiveClient_def js_incr_def
        toString_3)
  have acks: "map ack (socket ?c) ! 2 = Some 2"
    by (simp add: authenticate_def request_def Let_def new_LiveClient_def)
  show ?thesis
    using acknowledge_error_or_result [OF len pend,
        of "\<lparr>id_response = JStr ''3'', result = None,
        error = Some (JObj [(''code'', JNum 401), (''message'', JStr ''bad token'')])\<rparr>"
        "\<lparr>code = 401, message = JStr ''bad token'', data = None\<rparr>"]
      acknowledge_error_or_result [OF len pend,
        of "\<lparr>id_response = JStr ''3'', result = Some (JBool True), error = None\<rparr>"]
      ids acks
    by (simp add: obj read_opt_def)
qed

text \<open>
  C3. Claimed: the ids issued by one client are strictly increasing integers, as strings,
  and none is ever issued twice. The counter is a double: once it has reached \<open>2 ^ 53\<close>,
  \<^verbatim>\<open>this.id++\<close> leaves it there, and every further call is issued \<^verbatim>\<open>"9007199254740992"\<close>
  again. After \<open>2 ^ 53 + 1\<close> calls on a new client the ids issued are not distinct.
\<close>

theorem id_repeats_after_2_53_calls:
  "\<not> distinct (envelope_ids (socket (invoke_all
      (replicate (2 ^ 53 + 1) (Authenticate ''token'')) new_LiveClient)))"
proof -
  let ?n = "2 ^ 53 :: nat"
  let ?ids = "envelope_ids (socket (invoke_all
      (replicate (?n + 1) (Authenticate ''token'')) new_LiveClient))"
  have ids: "?ids = map (\<lambda>k. toString (min k ?n)) [1..<Suc (?n + 1)]"
    using invoke_all_new_ids [of "replicate (?n + 1) (Authenticate ''token'')"] by simp
  have len: "length ?ids = ?n + 1" unfolding ids by simp
  have a: "?ids ! (?n - 1) = toString ?n"
    unfolding ids by (subst nth_map) (simp_all del: upt_Suc)
  have b: "?ids ! ?n = toString ?n"
    unfolding ids by (subst nth_map) (simp_all del: upt_Suc)
  have "?n - 1 < length ?ids" "?n < length ?ids" "?n - 1 \<noteq> ?n"
    unfolding len by simp_all
  with a b show ?thesis
    by (metis nth_eq_iff_index_eq)
qed

text \<open>
  C3, amended. For every sequence of at most \<open>2 ^ 53\<close> invocations of \<^verbatim>\<open>request\<close> and
  \<^verbatim>\<open>authenticate\<close> on a new client, the ids issued are the decimal renderings of
  \<open>1, 2, 3, \<dots>\<close> in this order: strictly increasing integers, as strings, and no id is
  issued twice.
\<close>

theorem ids_increase_up_to_2_53:
  assumes "length is \<le> 2 ^ 53"
  shows "envelope_ids (socket (invoke_all is new_LiveClient)) = map toString [1..<Suc (length is)]
       \<and> map digits_value (envelope_ids (socket (invoke_all is new_LiveClient))) =
           [1..<Suc (length is)]
       \<and> sorted_wrt (<) (map digits_value (envelope_ids (socket (invoke_all is new_LiveClient))))
       \<and> distinct (envelope_ids (socket (invoke_all is new_LiveClient)))"
proof -
  let ?ids = "envelope_ids (socket (invoke_all is new_LiveClient))"
  have "map (\<lambda>k. toString (min k (2 ^ 53))) [1..<Suc (length is)] =
        map toString [1..<Suc (length is)]"
    using assms by (intro map_cong) (auto simp: min_def)
  then have ids: "?ids = map toString [1..<Suc (length is)]"
    by (simp only: invoke_all_new_ids)
  have vals: "map digits_value ?ids = [1..<Suc (length is)]"
    unfolding ids by (simp add: comp_def digits_value_toString del: upt_Suc)
  have "sorted_wrt (<) (map digits_value ?ids)"
    unfolding vals by (rule sorted_wrt_upt)
  moreover have "distinct ?ids"
    unfolding ids by (simp add: distinct_map inj_toString [THEN inj_on_subset] del: upt_Suc)
  ultimately show ?thesis using ids vals by simp
qed

theorem ids_increase_up_to_2_53_witness:
  "envelope_ids (socket (invoke_all
      [Call ''peerA'' ''Foo.Bar'' JNull, Authenticate ''token'', Call ''peerB'' ''Foo.Baz'' JNull]
      new_LiveClient)) = [''1'', ''2'', ''3'']"
proof -
  let ?is = "[Call ''peerA'' ''Foo.Bar'' JNull, Authenticate ''token'',
      Call ''peerB'' ''Foo.Baz'' JNull]"
  have "length ?is \<le> 2 ^ 53" by simp
  from ids_increase_up_to_2_53 [OF this]
  have "envelope_ids (socket (invoke_all ?is new_LiveClient)) =
      map toString [1..<Suc (length ?is)]" by (rule conjunct1)
  also have "map toString [1..<Suc (length ?is)] = [''1'', ''2'', ''3'']" by code_simp
  finally show ?thesis .
qed

text \<open>
  C2. Claimed: each of N concurrent calls receives the result or error of the response
  whose id equals its own request id. The acknowledgement function of a call never reads
  \<^verbatim>\<open>response.id\<close>: it settles its own promise with whatever response it is called with.
  Two calls are issued the ids \<^verbatim>\<open>"1"\<close> and \<^verbatim>\<open>"2"\<close>; the acknowledgement function of the
  first is called with \<^verbatim>\<open>{id: "2", result: "for 2"}\<close> and that of the second with
  \<^verbatim>\<open>{id: "1", result: "for 1"}\<close>. The call with id \<^verbatim>\<open>"1"\<close> is fulfilled with \<^verbatim>\<open>"for 2"\<close>,
  not with the result of the response whose id is \<^verbatim>\<open>"1"\<close>.
\<close>

theorem response_id_is_not_inspected:
  "\<not> settled_by_matching_id
      (deliver
        [(0, \<lparr>id_response = JStr ''2'', result = Some (JStr ''for 2''), error = None\<rparr>),
         (1, \<lparr>id_response = JStr ''1'', result = Some (JStr ''for 1''), error = None\<rparr>)]
        (invoke_all [Call ''peerA'' ''Foo.Bar'' JNull, Call ''peerB'' ''Foo.Bar'' JNull]
           new_LiveClient))
      [\<lparr>id_response = JStr ''2'', result = Some (JStr ''for 2''), error = None\<rparr>,
       \<lparr>id_response = JStr ''1'', result = Some (JStr ''for 1''), error = None\<rparr>]"
  by (simp add: settled_by_matching_id_def request_def Let_def new_LiveClient_def js_incr_def
      acknowledge_def resolve_def reject_def read_opt_def response_matching_def outcome_def
      toString_1 toString_2)

text \<open>
  C2, amended. For every sequence of N calls on one client and every order in which the
  transport calls their acknowledgement functions, each at most once: a call whose
  acknowledgement function is called with the response \<open>r\<close> is settled with the error or
  result of \<open>r\<close>, whatever the id of \<open>r\<close> and whatever happens to the other calls, and no
  later acknowledgement changes it. (A call whose acknowledgement function is never called
  stays pending. When every response carries the id of the request it acknowledges, \<open>r\<close>
  is the response whose id equals the call's own request id.)
\<close>

theorem calls_settled_by_own_acknowledgement:
  assumes "distinct (map fst ds)" and "(h, r) \<in> set ds"
    and "length (promises c) \<le> h" and "h < length (promises c) + length is"
  shows "promises (deliver ds (invoke_all is c)) ! h = outcome r
       \<and> promises (deliver ds' (deliver ds (invoke_all is c))) ! h = outcome r"
proof -
  let ?c = "invoke_all is c"
  have len: "h < length (promises ?c)"
    using assms by (simp add: invoke_all_promises)
  have pend: "promises ?c ! h = Pending"
    using assms by (simp add: invoke_all_promises nth_append)
  have "map_of ds h = Some r"
    using assms by simp
  with deliver_first [OF len pend, of ds]
  have one: "promises (deliver ds ?c) ! h = outcome r" by simp
  then have "promises (deliver ds' (deliver ds ?c)) ! h = outcome r"
    using deliver_settled [of "deliver ds ?c" h ds'] by (simp add: outcome_settled)
  with one show ?thesis by simp
qed

theorem calls_settled_by_own_acknowledgement_witness:
  "promises (deliver
      [(1, \<lparr>id_response = JStr ''2'', result = Some (JStr ''B''), error = None\<rparr>),
       (0, \<lparr>id_response = JStr ''1'', result = None,
            error = Some (JObj [(''code'', JNum 401), (''message'', JStr ''bad token'')])\<rparr>)]
      (invoke_all [Authenticate ''token'', Call ''peerA'' ''Foo.Bar'' JNull] new_LiveClient)) ! 0 =
    Rejected (JObj [(''code'', JNum 401), (''message'', JStr ''bad token'')])"
  using calls_settled_by_own_acknowledgement [of
      "[(1, \<lparr>id_response = JStr ''2'', result = Some (JStr ''B''), error = None\<rparr>),
       (0, \<lparr>id_response = JStr ''1'', result = None,
            error = Some (JObj [(''code'', JNum 401), (''message'', JStr ''bad token'')])\<rparr>)]"
      0 "\<lparr>id_response = JStr ''1'', result = None,
            error = Some (JObj [(''code'', JNum 401), (''message'', JStr ''bad token'')])\<rparr>"
      new_LiveClient "[Authenticate ''token'', Call ''peerA'' ''Foo.Bar'' JNull]" "[]"]
  by (simp add: new_LiveClient_def outcome_def read_opt_def)

end
